theory Spec2Isabelle
  imports Main "HOL-Library.Word" "HOL-Library.Sublist"
begin

section \<open>wayland-idle-helper: a shallow embedding\<close>

text \<open>
  The program is one C file, \<^verbatim>\<open>wayland-idle-helper.c\<close>. It has two file-scoped
  pointers (\<^verbatim>\<open>seat\<close>, \<^verbatim>\<open>notifier\<close>), four listener callbacks and \<^verbatim>\<open>main\<close>.
  Everything else is the C library and libwayland-client.

  The embedding threads a state record through the calls. The record holds the two
  file-scoped pointers, the next unused object address and the trace of library calls
  made so far, in program order. What the outside world decides (the arguments, whether
  the connection opens, which events the compositor delivers inside each blocking call)
  is an input record.
\<close>

subsection \<open>The C library: \<^verbatim>\<open>atol\<close>\<close>

text \<open>
  \<^verbatim>\<open>atol(s)\<close> is \<^verbatim>\<open>strtol(s, NULL, 10)\<close>: skip white space, read an optional sign,
  read decimal digits for as long as there are some, and stop at the first other
  character. No digits gives 0. \<^verbatim>\<open>long\<close> is the 64-bit type of the LP64 platforms
  the helper is built for; a value that does not fit is clamped to \<^verbatim>\<open>LONG_MAX\<close> or
  \<^verbatim>\<open>LONG_MIN\<close>, as \<^verbatim>\<open>strtol\<close> does. A \<^verbatim>\<open>long\<close> is modelled by the integer it denotes.
\<close>

definition LONG_MAX :: int where
  "LONG_MAX = 2 ^ 63 - 1"

definition LONG_MIN :: int where
  "LONG_MIN = - (2 ^ 63)"

definition isspace :: "char \<Rightarrow> bool" where
  "isspace c = (c = CHR '' '' \<or> c = CHR 0x09 \<or> c = CHR 0x0A \<or> c = CHR 0x0B
     \<or> c = CHR 0x0C \<or> c = CHR 0x0D)"

definition isdigit :: "char \<Rightarrow> bool" where
  "isdigit c = (48 \<le> (of_char c :: nat) \<and> (of_char c :: nat) \<le> 57)"

definition digit_val :: "char \<Rightarrow> nat" where
  "digit_val c = of_char c - 48"

fun read_digits :: "nat \<Rightarrow> string \<Rightarrow> nat" where
  "read_digits acc [] = acc"
| "read_digits acc (c # cs) =
     (if isdigit c then read_digits (acc * 10 + digit_val c) cs else acc)"

definition atol :: "string \<Rightarrow> int" where
  "atol s =
     (case dropWhile isspace s of
        [] \<Rightarrow> 0
      | c # cs \<Rightarrow>
          if c = CHR ''-'' then max LONG_MIN (- int (read_digits 0 cs))
          else if c = CHR ''+'' then min LONG_MAX (int (read_digits 0 cs))
          else min LONG_MAX (int (read_digits 0 (c # cs))))"

subsection \<open>The timeout argument (lines 70 to 74 of \<^verbatim>\<open>main\<close>)\<close>

text \<open>
  \<^verbatim>\<open>argv\<close> is the list of arguments with the program name first, so \<^verbatim>\<open>argc\<close> is its
  length. \<^verbatim>\<open>timeout_ms\<close> is a \<^verbatim>\<open>uint32_t\<close>; the cast \<^verbatim>\<open>(uint32_t)val\<close> keeps the low
  32 bits of the \<^verbatim>\<open>long\<close>.
\<close>

definition parse_timeout :: "string list \<Rightarrow> 32 word" where
  "parse_timeout argv =
     (if length argv > 1 then
        (let val = atol (argv ! 1) in
         if val > 0 then word_of_int val else 10000)
      else 10000)"

text \<open>
  The decimal numeral a string of digits denotes, written independently of
  \<^const>\<open>read_digits\<close>: the last character is the units digit.
\<close>

definition is_decimal :: "string \<Rightarrow> bool" where
  "is_decimal ds = (ds \<noteq> [] \<and> list_all isdigit ds)"

fun decimal_value :: "string \<Rightarrow> nat" where
  "decimal_value [] = 0"
| "decimal_value (c # cs) = digit_val c * 10 ^ length cs + decimal_value cs"

text \<open>
  A string is non-numeric when, after optional white space and one optional sign, it does
  not go on with a digit: \<^verbatim>\<open>strtol\<close> finds no subject sequence in it.
\<close>

definition non_numeric :: "string \<Rightarrow> bool" where
  "non_numeric s =
     (case dropWhile isspace s of
        [] \<Rightarrow> True
      | c # cs \<Rightarrow>
          if c = CHR ''-'' \<or> c = CHR ''+'' then (case cs of [] \<Rightarrow> True | d # _ \<Rightarrow> \<not> isdigit d)
          else \<not> isdigit c)"

subsection \<open>Objects, events and library calls\<close>

text \<open>
  A protocol object is known by its address. A C pointer is an optional address, with
  \<^const>\<open>None\<close> for \<^verbatim>\<open>NULL\<close>. libwayland creates an object for each
  \<^verbatim>\<open>wl_registry_bind\<close> and each request that has a \<^verbatim>\<open>new_id\<close>; running out of memory
  inside the library is not modelled, so the address it returns is a fresh one.
\<close>

type_synonym proxy = nat

datatype wl_interface = Wl_seat_interface | Ext_idle_notifier_v1_interface

text \<open>The two events of \<^verbatim>\<open>wl_registry\<close>, with the name, interface and version of a global.\<close>

datatype registry_event =
    Global "32 word" string "32 word"
  | Global_remove "32 word"

text \<open>
  The events that reach a listener of the program once the notification object exists:
  those of the registry and the two of \<^verbatim>\<open>ext_idle_notification_v1\<close>.
\<close>

datatype event = Registry registry_event | Idled | Resumed

text \<open>
  One call of \<^verbatim>\<open>wl_display_dispatch\<close>: the events it hands to the listeners, and
  whether it returns a count (\<open>Dispatched\<close>) or \<^verbatim>\<open>-1\<close> (\<open>Failed\<close>).
\<close>

datatype dispatch_result = Dispatched "event list" | Failed "event list"

text \<open>The calls the program makes on the outside world; the trace lists them in order.\<close>

datatype action =
    Printf string
  | Fflush
  | Fprintf_stderr string
  | Wl_display_connect "proxy option"
  | Wl_display_get_registry proxy proxy
  | Wl_registry_add_listener proxy
  | Wl_display_roundtrip proxy
  | Wl_registry_bind proxy "32 word" wl_interface proxy
  | Get_idle_notification "proxy option" "32 word" "proxy option" proxy
  | Notification_add_listener proxy
  | Wl_display_dispatch proxy
  | Notification_destroy proxy
  | Notifier_destroy "proxy option"
  | Wl_display_disconnect proxy

record state =
  seat :: "proxy option"
  notifier :: "proxy option"
  next_proxy :: proxy
  trace :: "action list"

text \<open>
  What the environment decides: the arguments, whether \<^verbatim>\<open>wl_display_connect\<close> returns
  a display, the registry events delivered inside \<^verbatim>\<open>wl_display_roundtrip\<close>, and the
  outcome of each successive \<^verbatim>\<open>wl_display_dispatch\<close>. When the list of outcomes is used
  up the next call blocks and never returns.
\<close>

record env =
  argv :: "string list"
  connect_result :: bool
  roundtrip_events :: "registry_event list"
  dispatch_results :: "dispatch_result list"

definition initial_state :: state where
  "initial_state = \<lparr>seat = None, notifier = None, next_proxy = 1, trace = []\<rparr>"

definition call :: "action \<Rightarrow> state \<Rightarrow> state" where
  "call a s = s\<lparr>trace := trace s @ [a]\<rparr>"

subsection \<open>The listeners (lines 25 to 66)\<close>

definition on_idled :: "state \<Rightarrow> state" where
  "on_idled s = call Fflush (call (Printf ''IDLE\<newline>'') s)"

definition on_resumed :: "state \<Rightarrow> state" where
  "on_resumed s = call Fflush (call (Printf ''RESUMED\<newline>'') s)"

definition registry_global :: "proxy \<Rightarrow> 32 word \<Rightarrow> string \<Rightarrow> 32 word \<Rightarrow> state \<Rightarrow> state" where
  "registry_global registry name interface version s =
     (if interface = ''wl_seat'' \<and> seat s = None then
        (let p = next_proxy s in
         call (Wl_registry_bind registry name Wl_seat_interface p)
           (s\<lparr>seat := Some p, next_proxy := Suc p\<rparr>))
      else if interface = ''ext_idle_notifier_v1'' then
        (let p = next_proxy s in
         call (Wl_registry_bind registry name Ext_idle_notifier_v1_interface p)
           (s\<lparr>notifier := Some p, next_proxy := Suc p\<rparr>))
      else s)"

definition registry_global_remove :: "proxy \<Rightarrow> 32 word \<Rightarrow> state \<Rightarrow> state" where
  "registry_global_remove registry name s = s"

subsection \<open>libwayland handing events to the listeners\<close>

fun registry_listener :: "proxy \<Rightarrow> registry_event \<Rightarrow> state \<Rightarrow> state" where
  "registry_listener registry (Global name interface version) s =
     registry_global registry name interface version s"
| "registry_listener registry (Global_remove name) s =
     registry_global_remove registry name s"

fun visit_globals :: "proxy \<Rightarrow> registry_event list \<Rightarrow> state \<Rightarrow> state" where
  "visit_globals registry [] s = s"
| "visit_globals registry (ev # evs) s =
     visit_globals registry evs (registry_listener registry ev s)"

definition wl_display_roundtrip :: "proxy \<Rightarrow> proxy \<Rightarrow> registry_event list \<Rightarrow> state \<Rightarrow> state" where
  "wl_display_roundtrip display registry evs s =
     visit_globals registry evs (call (Wl_display_roundtrip display) s)"

fun deliver :: "proxy \<Rightarrow> event \<Rightarrow> state \<Rightarrow> state" where
  "deliver registry (Registry ev) s = registry_listener registry ev s"
| "deliver registry Idled s = on_idled s"
| "deliver registry Resumed s = on_resumed s"

fun deliver_all :: "proxy \<Rightarrow> event list \<Rightarrow> state \<Rightarrow> state" where
  "deliver_all registry [] s = s"
| "deliver_all registry (ev # evs) s = deliver_all registry evs (deliver registry ev s)"

subsection \<open>The dispatch loop (lines 105 to 107)\<close>

text \<open>
  \<^verbatim>\<open>while (wl_display_dispatch(display) != -1) { }\<close>. The second component of the
  result tells whether the loop was left: it is \<^const>\<open>False\<close> when the outcomes run
  out, which is the call that never returns.
\<close>

fun dispatch_loop :: "proxy \<Rightarrow> proxy \<Rightarrow> dispatch_result list \<Rightarrow> state \<Rightarrow> state \<times> bool" where
  "dispatch_loop display registry [] s = (call (Wl_display_dispatch display) s, False)"
| "dispatch_loop display registry (Dispatched evs # rs) s =
     dispatch_loop display registry rs
       (deliver_all registry evs (call (Wl_display_dispatch display) s))"
| "dispatch_loop display registry (Failed evs # rs) s =
     (deliver_all registry evs (call (Wl_display_dispatch display) s), True)"

subsection \<open>\<^verbatim>\<open>main\<close> (lines 68 to 113)\<close>

text \<open>
  The result is the final state and the exit status; the status is \<^const>\<open>None\<close> for
  a run that stays blocked in \<^verbatim>\<open>wl_display_dispatch\<close>.
\<close>

definition main :: "env \<Rightarrow> state \<times> int option" where
  "main e =
     (let timeout_ms = parse_timeout (argv e);
          s = initial_state
      in
      if \<not> connect_result e then
        (call (Fprintf_stderr ''ERROR: Cannot connect to Wayland display\<newline>'')
           (call (Wl_display_connect None) s), Some 1)
      else
        let display = next_proxy s;
            s = call (Wl_display_connect (Some display)) (s\<lparr>next_proxy := Suc display\<rparr>);
            registry = next_proxy s;
            s = call (Wl_display_get_registry display registry)
                  (s\<lparr>next_proxy := Suc registry\<rparr>);
            s = call (Wl_registry_add_listener registry) s;
            s = wl_display_roundtrip display registry (roundtrip_events e) s
        in
        if seat s = None then
          (call (Wl_display_disconnect display)
             (call (Fprintf_stderr ''ERROR: No wl_seat found\<newline>'') s), Some 1)
        else if notifier s = None then
          (call (Wl_display_disconnect display)
             (call (Fprintf_stderr ''ERROR: ext_idle_notifier_v1 not supported\<newline>'') s),
           Some 1)
        else
          let notif = next_proxy s;
              s = call (Get_idle_notification (notifier s) timeout_ms (seat s) notif)
                    (s\<lparr>next_proxy := Suc notif\<rparr>);
              s = call (Notification_add_listener notif) s;
              s = call (Printf ''READY\<newline>'') s;
              s = call Fflush s;
              (s, left) = dispatch_loop display registry (dispatch_results e) s
          in
          if left then
            let s = call (Notification_destroy notif) s;
                s = call (Notifier_destroy (notifier s)) s;
                s = call (Wl_display_disconnect display) s
            in (s, Some 0)
          else (s, None))"

subsection \<open>Reading a run\<close>

definition run_trace :: "env \<Rightarrow> action list" where
  "run_trace e = trace (fst (main e))"

definition exit_status :: "env \<Rightarrow> int option" where
  "exit_status e = snd (main e)"

text \<open>The lines written to standard output and to standard error, in order.\<close>

fun printed :: "action \<Rightarrow> string list" where
  "printed (Printf l) = [l]"
| "printed _ = []"

definition stdout_lines :: "action list \<Rightarrow> string list" where
  "stdout_lines tr = concat (map printed tr)"

fun complained :: "action \<Rightarrow> string list" where
  "complained (Fprintf_stderr l) = [l]"
| "complained _ = []"

definition stderr_lines :: "action list \<Rightarrow> string list" where
  "stderr_lines tr = concat (map complained tr)"

text \<open>Every \<^verbatim>\<open>printf\<close> is followed at once by \<^verbatim>\<open>fflush\<close>.\<close>

fun flushed :: "action list \<Rightarrow> bool" where
  "flushed [] = True"
| "flushed [Printf l] = False"
| "flushed (Printf l # a # tr) = (a = Fflush \<and> flushed tr)"
| "flushed (a # tr) = flushed tr"

text \<open>The globals bound with a given interface: name and new object, in order.\<close>

fun bind_of :: "wl_interface \<Rightarrow> action \<Rightarrow> (32 word \<times> proxy) list" where
  "bind_of i (Wl_registry_bind r n j p) = (if i = j then [(n, p)] else [])"
| "bind_of i _ = []"

definition binds :: "wl_interface \<Rightarrow> action list \<Rightarrow> (32 word \<times> proxy) list" where
  "binds i tr = concat (map (bind_of i) tr)"

text \<open>The names under which an interface is advertised, in order.\<close>

fun advert_of :: "string \<Rightarrow> registry_event \<Rightarrow> 32 word list" where
  "advert_of i (Global n j v) = (if i = j then [n] else [])"
| "advert_of i (Global_remove n) = []"

definition advertised :: "string \<Rightarrow> registry_event list \<Rightarrow> 32 word list" where
  "advertised i evs = concat (map (advert_of i) evs)"

text \<open>The notification objects requested: notifier, timeout and seat of each request.\<close>

fun subscription_of :: "action \<Rightarrow> (proxy option \<times> 32 word \<times> proxy option) list" where
  "subscription_of (Get_idle_notification nt t st p) = [(nt, t, st)]"
| "subscription_of _ = []"

definition subscriptions :: "action list \<Rightarrow> (proxy option \<times> 32 word \<times> proxy option) list" where
  "subscriptions tr = concat (map subscription_of tr)"

fun is_subscription :: "action \<Rightarrow> bool" where
  "is_subscription (Get_idle_notification nt t st p) = True"
| "is_subscription _ = False"

text \<open>
  The capability handles and subscriptions created, the objects destroyed, the
  notification objects requested, and the displays disconnected.
\<close>

fun created_by :: "action \<Rightarrow> proxy list" where
  "created_by (Wl_registry_bind r n j p) = [p]"
| "created_by (Get_idle_notification nt t st p) = [p]"
| "created_by _ = []"

definition created :: "action list \<Rightarrow> proxy list" where
  "created tr = concat (map created_by tr)"

fun destroyed_by :: "action \<Rightarrow> proxy list" where
  "destroyed_by (Notification_destroy p) = [p]"
| "destroyed_by (Notifier_destroy (Some p)) = [p]"
| "destroyed_by _ = []"

definition destroyed :: "action list \<Rightarrow> proxy list" where
  "destroyed tr = concat (map destroyed_by tr)"

fun requested_by :: "action \<Rightarrow> proxy list" where
  "requested_by (Get_idle_notification nt t st p) = [p]"
| "requested_by _ = []"

definition requested :: "action list \<Rightarrow> proxy list" where
  "requested tr = concat (map requested_by tr)"

fun disconnected_by :: "action \<Rightarrow> proxy list" where
  "disconnected_by (Wl_display_disconnect d) = [d]"
| "disconnected_by _ = []"

definition disconnected :: "action list \<Rightarrow> proxy list" where
  "disconnected tr = concat (map disconnected_by tr)"

fun is_dispatch :: "action \<Rightarrow> bool" where
  "is_dispatch (Wl_display_dispatch d) = True"
| "is_dispatch _ = False"

fun is_bind :: "action \<Rightarrow> bool" where
  "is_bind (Wl_registry_bind r n j p) = True"
| "is_bind _ = False"

text \<open>The calls that can be made from inside the dispatch loop.\<close>

definition loop_action :: "action \<Rightarrow> bool" where
  "loop_action a = (is_bind a \<or> is_dispatch a \<or> a = Fflush \<or> a = Printf ''IDLE\<newline>''
     \<or> a = Printf ''RESUMED\<newline>'')"

text \<open>The events the listeners receive in the dispatch loop; which of them are idle
  notifications, and the line written for each of those.\<close>

fun delivered :: "dispatch_result list \<Rightarrow> event list" where
  "delivered [] = []"
| "delivered (Dispatched evs # rs) = evs @ delivered rs"
| "delivered (Failed evs # rs) = evs"

fun is_failed :: "dispatch_result \<Rightarrow> bool" where
  "is_failed (Failed evs) = True"
| "is_failed (Dispatched evs) = False"

definition connection_fails :: "dispatch_result list \<Rightarrow> bool" where
  "connection_fails rs = list_ex is_failed rs"

fun is_notification :: "event \<Rightarrow> bool" where
  "is_notification Idled = True"
| "is_notification Resumed = True"
| "is_notification (Registry ev) = False"

fun token :: "event \<Rightarrow> string" where
  "token Idled = ''IDLE\<newline>''"
| "token Resumed = ''RESUMED\<newline>''"
| "token (Registry ev) = []"

text \<open>
  What follows names parts of a run of \<^verbatim>\<open>main\<close>, for stating lemmas about it. A run
  gets as far as the subscription and the dispatch loop when the connection opens and both
  capabilities are advertised in discovery.
\<close>

definition subscribes :: "env \<Rightarrow> bool" where
  "subscribes e = (connect_result e \<and> advertised ''wl_seat'' (roundtrip_events e) \<noteq> []
     \<and> advertised ''ext_idle_notifier_v1'' (roundtrip_events e) \<noteq> [])"

text \<open>
  The state in which \<^verbatim>\<open>wl_display_roundtrip\<close> returns in \<^verbatim>\<open>main\<close>, when the connection
  opened: the display is object 1 and the registry object 2.
\<close>

definition discovered :: "env \<Rightarrow> state" where
  "discovered e =
     wl_display_roundtrip 1 2 (roundtrip_events e)
       \<lparr>seat = None, notifier = None, next_proxy = 3,
        trace = [Wl_display_connect (Some 1), Wl_display_get_registry 1 2,
                 Wl_registry_add_listener 2]\<rparr>"

text \<open>
  The state in which \<^verbatim>\<open>main\<close> enters the dispatch loop, when both handles are set after
  discovery.
\<close>

definition ready :: "env \<Rightarrow> state" where
  "ready e =
     (let s = discovered e; notif = next_proxy s in
      s\<lparr>next_proxy := Suc notif,
        trace := trace s @
          [Get_idle_notification (notifier s) (parse_timeout (argv e)) (seat s) notif,
           Notification_add_listener notif, Printf ''READY\<newline>'', Fflush]\<rparr>)"

text \<open>
  The handles point at what was bound: \<^verbatim>\<open>seat\<close> at the object of the first seat bind,
  \<^verbatim>\<open>notifier\<close> at the object of the latest notifier bind, and each is \<^verbatim>\<open>NULL\<close>
  while there is no such bind.
\<close>

definition linked :: "state \<Rightarrow> bool" where
  "linked s =
     (seat s = (case binds Wl_seat_interface (trace s) of [] \<Rightarrow> None | b # _ \<Rightarrow> Some (snd b))
      \<and> notifier s = (case rev (binds Ext_idle_notifier_v1_interface (trace s)) of
           [] \<Rightarrow> None | b # _ \<Rightarrow> Some (snd b)))"

text \<open>The part of a trace that comes before the first request for a notification object.\<close>

definition before_subscription :: "action list \<Rightarrow> action list" where
  "before_subscription tr = takeWhile (\<lambda>a. \<not> is_subscription a) tr"

text \<open>The part of a trace that comes before the first \<^verbatim>\<open>printf\<close> of \<^verbatim>\<open>READY\<close>.\<close>

definition before_ready :: "action list \<Rightarrow> action list" where
  "before_ready tr = takeWhile (\<lambda>a. a \<noteq> Printf ''READY\<newline>'') tr"

subsection \<open>Example runs\<close>

text \<open>
  A compositor that advertises two seats and the idle notifier, reports idle, resumed and
  idle again, and then goes away; one with neither capability; one with a seat only; one
  that advertises the idle notifier twice.
\<close>

definition session :: env where
  "session =
     \<lparr>argv = [''wayland-idle-helper'', ''5000''],
      connect_result = True,
      roundtrip_events =
        [Global 1 ''wl_compositor'' 6, Global 2 ''wl_seat'' 9,
         Global 3 ''ext_idle_notifier_v1'' 2, Global 4 ''wl_seat'' 9],
      dispatch_results = [Dispatched [Idled], Dispatched [Resumed, Idled], Failed []]\<rparr>"

definition bare_compositor :: env where
  "bare_compositor =
     \<lparr>argv = [''wayland-idle-helper''],
      connect_result = True,
      roundtrip_events = [Global 1 ''wl_compositor'' 6],
      dispatch_results = []\<rparr>"

definition seat_only :: env where
  "seat_only =
     \<lparr>argv = [''wayland-idle-helper''],
      connect_result = True,
      roundtrip_events = [Global 1 ''wl_compositor'' 6, Global 2 ''wl_seat'' 9],
      dispatch_results = []\<rparr>"

definition two_notifiers :: env where
  "two_notifiers =
     \<lparr>argv = [''wayland-idle-helper''],
      connect_result = True,
      roundtrip_events =
        [Global 1 ''ext_idle_notifier_v1'' 2, Global 2 ''wl_seat'' 9,
         Global 3 ''ext_idle_notifier_v1'' 2],
      dispatch_results = []\<rparr>"

section \<open>Properties\<close>

subsection \<open>Reading numbers\<close>

lemma read_digits_decimal:
  "list_all isdigit ds \<Longrightarrow> read_digits acc ds = acc * 10 ^ length ds + decimal_value ds"
  by (induction ds arbitrary: acc) (simp_all add: algebra_simps)

lemma isdigit_not_space: "isdigit c \<Longrightarrow> \<not> isspace c"
  by (auto simp: isdigit_def isspace_def)

lemma isdigit_not_sign: "isdigit c \<Longrightarrow> c \<noteq> CHR ''-'' \<and> c \<noteq> CHR ''+''"
  by (auto simp: isdigit_def)

lemma atol_decimal:
  assumes "is_decimal ds"
  shows "atol ds = min LONG_MAX (int (decimal_value ds))"
proof -
  from assms obtain c cs where ds: "ds = c # cs" and c: "isdigit c" and cs: "list_all isdigit cs"
    by (cases ds) (auto simp: is_decimal_def)
  have "dropWhile isspace ds = ds"
    using c by (simp add: ds isdigit_not_space)
  moreover have "read_digits 0 ds = decimal_value ds"
    using read_digits_decimal [of ds 0] c cs by (simp add: ds)
  ultimately show ?thesis
    using isdigit_not_sign [OF c] by (simp add: atol_def ds)
qed

lemma atol_minus_decimal:
  assumes "is_decimal ds"
  shows "atol (CHR ''-'' # ds) = max LONG_MIN (- int (decimal_value ds))"
proof -
  have "list_all isdigit ds"
    using assms by (simp add: is_decimal_def)
  then have "read_digits 0 ds = decimal_value ds"
    using read_digits_decimal [of ds 0] by simp
  then show ?thesis
    by (simp add: atol_def isspace_def)
qed

lemma read_digits_nondigit: "(case cs of [] \<Rightarrow> True | d # _ \<Rightarrow> \<not> isdigit d) \<Longrightarrow> read_digits acc cs = acc"
  by (cases cs) simp_all

lemma atol_non_numeric:
  assumes "non_numeric s"
  shows "atol s = 0"
proof -
  define r where "r = dropWhile isspace s"
  show ?thesis
  proof (cases r)
    case Nil
    then show ?thesis by (simp add: atol_def r_def [symmetric])
  next
    case (Cons c cs)
    show ?thesis
    proof (cases "c = CHR ''-'' \<or> c = CHR ''+''")
      case True
      with assms Cons have "read_digits 0 cs = 0"
        by (intro read_digits_nondigit) (auto simp: non_numeric_def r_def [symmetric])
      with True Cons show ?thesis
        by (auto simp: atol_def r_def [symmetric] LONG_MAX_def LONG_MIN_def)
    next
      case False
      with assms Cons have "\<not> isdigit c"
        by (simp add: non_numeric_def r_def [symmetric])
      with False Cons show ?thesis
        by (simp add: atol_def r_def [symmetric] LONG_MAX_def)
    qed
  qed
qed

lemma atol_range: "LONG_MIN \<le> atol s \<and> atol s \<le> LONG_MAX"
proof -
  define r where "r = dropWhile isspace s"
  show ?thesis
    unfolding atol_def r_def [symmetric]
    by (cases r) (simp_all add: LONG_MAX_def LONG_MIN_def)
qed

subsection \<open>The timeout argument\<close>

lemma parse_timeout_arg:
  "parse_timeout (prog # a # rest) = (if atol a > 0 then word_of_int (atol a) else 10000)"
  by (simp add: parse_timeout_def Let_def)

text \<open>
  Claim C10. An argument that \<^verbatim>\<open>atol\<close> reads as a value above \<open>2^32 - 1\<close> gives that
  value modulo \<open>2^32\<close> as the timeout: the cast to \<^verbatim>\<open>uint32_t\<close> keeps the low 32 bits.
  So does a string of digits whose value is above \<open>2^32 - 1\<close> and fits a \<^verbatim>\<open>long\<close>.
  The argument \<^verbatim>\<open>4294967296\<close> gives the timeout 0, not the default.
\<close>

theorem timeout_wraps_modulo_2_32:
  "(2 ^ 32 - 1 < atol a \<longrightarrow>
      uint (parse_timeout (prog # a # rest)) = atol a mod 2 ^ 32)
   \<and> (is_decimal ds \<and> 2 ^ 32 - 1 < decimal_value ds \<and> int (decimal_value ds) \<le> LONG_MAX \<longrightarrow>
      unat (parse_timeout (prog # ds # rest)) = decimal_value ds mod 2 ^ 32)"
proof (intro conjI impI)
  assume "2 ^ 32 - 1 < atol a"
  then show "uint (parse_timeout (prog # a # rest)) = atol a mod 2 ^ 32"
    by (simp add: parse_timeout_arg uint_word_of_int_eq take_bit_eq_mod)
next
  assume h: "is_decimal ds \<and> 2 ^ 32 - 1 < decimal_value ds \<and> int (decimal_value ds) \<le> LONG_MAX"
  then have "atol ds = int (decimal_value ds)"
    by (simp add: atol_decimal)
  moreover have "0 < decimal_value ds"
    using h by linarith
  ultimately have "parse_timeout (prog # ds # rest) = word_of_nat (decimal_value ds)"
    by (simp add: parse_timeout_arg)
  then show "unat (parse_timeout (prog # ds # rest)) = decimal_value ds mod 2 ^ 32"
    by (simp add: unat_of_nat)
qed

lemma atol_4294967296: "atol ''4294967296'' = 4294967296"
  by (simp add: atol_def isspace_def isdigit_def digit_val_def LONG_MAX_def)

theorem timeout_wraps_modulo_2_32_witness:
  "2 ^ 32 - 1 < atol ''4294967296'' \<and>
   parse_timeout [''wayland-idle-helper'', ''4294967296''] = 0 \<and>
   is_decimal ''4294967297'' \<and> decimal_value ''4294967297'' = 4294967297 \<and>
   unat (parse_timeout [''wayland-idle-helper'', ''4294967297'']) = 1"
proof -
  have big: "2 ^ 32 - 1 < atol ''4294967296''"
    by (simp add: atol_4294967296)
  have "uint (parse_timeout [''wayland-idle-helper'', ''4294967296'']) = 0"
    using timeout_wraps_modulo_2_32 [of "''4294967296''" "''wayland-idle-helper''" "[]"] big
    by (simp add: atol_4294967296)
  then have zero: "parse_timeout [''wayland-idle-helper'', ''4294967296''] = 0"
    by (simp add: word_uint_eq_iff)
  have dec: "is_decimal ''4294967297'' \<and> decimal_value ''4294967297'' = 4294967297"
    by (simp add: is_decimal_def isdigit_def digit_val_def)
  have "unat (parse_timeout [''wayland-idle-helper'', ''4294967297'']) = 1"
    using timeout_wraps_modulo_2_32 [of _ "''wayland-idle-helper''" "[]" "''4294967297''"]
    by (simp add: is_decimal_def isdigit_def digit_val_def LONG_MAX_def)
  then show ?thesis
    using big zero dec by simp
qed

lemma decimal_4294967296: "is_decimal ''4294967296'' \<and> decimal_value ''4294967296'' = 4294967296"
  by (simp add: is_decimal_def isdigit_def digit_val_def)

text \<open>
  Claim C4 as it is written fails at the argument \<^verbatim>\<open>4294967296\<close>: a valid positive
  integer, for which the timeout is neither the parsed value nor the default.
\<close>

theorem timeout_of_large_argument_counterexample:
  "is_decimal ''4294967296'' \<and> 0 < decimal_value ''4294967296'' \<and>
   uint (parse_timeout [''wayland-idle-helper'', ''4294967296'']) \<noteq> int (decimal_value ''4294967296'') \<and>
   parse_timeout [''wayland-idle-helper'', ''4294967296''] \<noteq> 10000"
  by (simp add: is_decimal_def isdigit_def digit_val_def parse_timeout_arg atol_4294967296)

text \<open>
  Claim C4, amended. For an argument that is a string of decimal digits with a value from
  1 to \<open>2^32 - 1\<close>, the timeout is that value. For a string of digits with value 0, for
  a minus sign followed by digits, for a string with no number at its start, and for an
  absent argument, the timeout is the default 10000.
\<close>

theorem effective_timeout:
  "(is_decimal ds \<and> 0 < decimal_value ds \<and> decimal_value ds < 2 ^ 32 \<longrightarrow>
      unat (parse_timeout (prog # ds # rest)) = decimal_value ds)
   \<and> (is_decimal ds \<and> decimal_value ds = 0 \<longrightarrow> parse_timeout (prog # ds # rest) = 10000)
   \<and> (is_decimal ds \<longrightarrow> parse_timeout (prog # (CHR ''-'' # ds) # rest) = 10000)
   \<and> (non_numeric a \<longrightarrow> parse_timeout (prog # a # rest) = 10000)
   \<and> (length args \<le> 1 \<longrightarrow> parse_timeout args = 10000)"
proof (intro conjI impI)
  assume h: "is_decimal ds \<and> 0 < decimal_value ds \<and> decimal_value ds < 2 ^ 32"
  then have small: "int (decimal_value ds) < 2 ^ 32"
    by (metis of_nat_less_iff of_nat_numeral of_nat_power)
  then have "atol ds = int (decimal_value ds)"
    using h by (simp add: atol_decimal LONG_MAX_def)
  then have "parse_timeout (prog # ds # rest) = word_of_int (int (decimal_value ds))"
    using h by (simp add: parse_timeout_arg)
  then show "unat (parse_timeout (prog # ds # rest)) = decimal_value ds"
    using h by (simp add: unat_of_nat take_bit_nat_eq_self)
next
  assume "is_decimal ds \<and> decimal_value ds = 0"
  then show "parse_timeout (prog # ds # rest) = 10000"
    by (simp add: parse_timeout_arg atol_decimal LONG_MAX_def)
next
  assume "is_decimal ds"
  then have "atol (CHR ''-'' # ds) \<le> 0"
    by (simp add: atol_minus_decimal LONG_MIN_def)
  then show "parse_timeout (prog # (CHR ''-'' # ds) # rest) = 10000"
    by (simp add: parse_timeout_arg)
next
  assume "non_numeric a"
  then show "parse_timeout (prog # a # rest) = 10000"
    by (simp add: parse_timeout_arg atol_non_numeric)
next
  assume "length args \<le> 1"
  then show "parse_timeout args = 10000"
    by (simp add: parse_timeout_def)
qed

theorem effective_timeout_witness:
  "is_decimal ''250'' \<and> 0 < decimal_value ''250'' \<and> decimal_value ''250'' < 2 ^ 32
   \<and> unat (parse_timeout [''wayland-idle-helper'', ''250'']) = 250
   \<and> is_decimal ''0'' \<and> decimal_value ''0'' = 0
   \<and> parse_timeout [''wayland-idle-helper'', ''0''] = 10000
   \<and> parse_timeout [''wayland-idle-helper'', ''-250''] = 10000
   \<and> non_numeric ''fast'' \<and> parse_timeout [''wayland-idle-helper'', ''fast''] = 10000
   \<and> length [''wayland-idle-helper''] \<le> 1 \<and> parse_timeout [''wayland-idle-helper''] = 10000"
proof -
  have d250: "is_decimal ''250'' \<and> decimal_value ''250'' = 250"
    by (simp add: is_decimal_def isdigit_def digit_val_def)
  have d0: "is_decimal ''0'' \<and> decimal_value ''0'' = 0"
    by (simp add: is_decimal_def isdigit_def digit_val_def)
  have nn: "non_numeric ''fast''"
    by (simp add: non_numeric_def isspace_def isdigit_def)
  show ?thesis
    using effective_timeout [of "''250''" "''wayland-idle-helper''" "[]" "''fast''" "[''wayland-idle-helper'']"]
      effective_timeout [of "''0''" "''wayland-idle-helper''" "[]" "''fast''" "[''wayland-idle-helper'']"]
      nn
    by (simp add: is_decimal_def isdigit_def digit_val_def)
qed

subsection \<open>The branches of \<^verbatim>\<open>main\<close>\<close>

lemma main_unfold:
  "main e =
     (if \<not> connect_result e then
        (\<lparr>seat = None, notifier = None, next_proxy = 1,
          trace = [Wl_display_connect None,
                   Fprintf_stderr ''ERROR: Cannot connect to Wayland display\<newline>'']\<rparr>, Some 1)
      else if seat (discovered e) = None then
        ((discovered e)\<lparr>trace := trace (discovered e) @
           [Fprintf_stderr ''ERROR: No wl_seat found\<newline>'', Wl_display_disconnect 1]\<rparr>, Some 1)
      else if notifier (discovered e) = None then
        ((discovered e)\<lparr>trace := trace (discovered e) @
           [Fprintf_stderr ''ERROR: ext_idle_notifier_v1 not supported\<newline>'',
            Wl_display_disconnect 1]\<rparr>, Some 1)
      else
        (let r = dispatch_loop 1 2 (dispatch_results e) (ready e) in
         if snd r then
           ((fst r)\<lparr>trace := trace (fst r) @
              [Notification_destroy (next_proxy (discovered e)),
               Notifier_destroy (notifier (fst r)), Wl_display_disconnect 1]\<rparr>, Some 0)
         else (fst r, None)))"
  by (simp add: main_def initial_state_def call_def Let_def discovered_def ready_def
      case_prod_beta numeral_2_eq_2 numeral_3_eq_3)

subsection \<open>Reading a trace piece by piece\<close>

lemma stdout_lines_simps [simp]:
  "stdout_lines [] = []"
  "stdout_lines (x # xs) = printed x @ stdout_lines xs"
  "stdout_lines (xs @ ys) = stdout_lines xs @ stdout_lines ys"
  by (simp_all add: stdout_lines_def)

lemma stderr_lines_simps [simp]:
  "stderr_lines [] = []"
  "stderr_lines (x # xs) = complained x @ stderr_lines xs"
  "stderr_lines (xs @ ys) = stderr_lines xs @ stderr_lines ys"
  by (simp_all add: stderr_lines_def)

lemma binds_simps [simp]:
  "binds i [] = []"
  "binds i (x # xs) = bind_of i x @ binds i xs"
  "binds i (xs @ ys) = binds i xs @ binds i ys"
  by (simp_all add: binds_def)

lemma subscriptions_simps [simp]:
  "subscriptions [] = []"
  "subscriptions (x # xs) = subscription_of x @ subscriptions xs"
  "subscriptions (xs @ ys) = subscriptions xs @ subscriptions ys"
  by (simp_all add: subscriptions_def)

lemma created_simps [simp]:
  "created [] = []"
  "created (x # xs) = created_by x @ created xs"
  "created (xs @ ys) = created xs @ created ys"
  by (simp_all add: created_def)

lemma destroyed_simps [simp]:
  "destroyed [] = []"
  "destroyed (x # xs) = destroyed_by x @ destroyed xs"
  "destroyed (xs @ ys) = destroyed xs @ destroyed ys"
  by (simp_all add: destroyed_def)

lemma requested_simps [simp]:
  "requested [] = []"
  "requested (x # xs) = requested_by x @ requested xs"
  "requested (xs @ ys) = requested xs @ requested ys"
  by (simp_all add: requested_def)

lemma disconnected_simps [simp]:
  "disconnected [] = []"
  "disconnected (x # xs) = disconnected_by x @ disconnected xs"
  "disconnected (xs @ ys) = disconnected xs @ disconnected ys"
  by (simp_all add: disconnected_def)

subsection \<open>Steps and invariants\<close>

lemma call_simps [simp]:
  "trace (call a s) = trace s @ [a]"
  "seat (call a s) = seat s"
  "notifier (call a s) = notifier s"
  "next_proxy (call a s) = next_proxy s"
  by (simp_all add: call_def)

lemma visit_globals_invariant:
  assumes "P s" and "\<And>s n i v. P s \<Longrightarrow> P (registry_global r n i v s)"
  shows "P (visit_globals r evs s)"
  using assms(1)
proof (induction evs arbitrary: s)
  case Nil
  then show ?case by simp
next
  case (Cons ev evs)
  then show ?case
    by (cases ev) (simp_all add: assms(2) registry_global_remove_def)
qed

lemma deliver_all_invariant:
  assumes "P s" and "\<And>s n i v. P s \<Longrightarrow> P (registry_global r n i v s)"
    and "\<And>s. P s \<Longrightarrow> P (on_idled s)" and "\<And>s. P s \<Longrightarrow> P (on_resumed s)"
  shows "P (deliver_all r evs s)"
  using assms(1)
proof (induction evs arbitrary: s)
  case Nil
  then show ?case by simp
next
  case (Cons ev evs)
  have "P (deliver r ev s)"
  proof (cases ev)
    case (Registry x)
    then show ?thesis
      using Cons.prems assms(2) by (cases x) (simp_all add: registry_global_remove_def)
  qed (simp_all add: Cons.prems assms(3,4))
  then show ?case
    by (simp add: Cons.IH)
qed

lemma dispatch_loop_invariant:
  assumes "P s" and "\<And>s n i v. P s \<Longrightarrow> P (registry_global r n i v s)"
    and "\<And>s. P s \<Longrightarrow> P (on_idled s)" and "\<And>s. P s \<Longrightarrow> P (on_resumed s)"
    and "\<And>s. P s \<Longrightarrow> P (call (Wl_display_dispatch d) s)"
  shows "P (fst (dispatch_loop d r rs s))"
  using assms(1)
proof (induction rs arbitrary: s)
  case Nil
  then show ?case by (simp add: assms(5))
next
  case (Cons res rs)
  have step: "P (deliver_all r evs (call (Wl_display_dispatch d) s))" for evs
    using Cons.prems assms(2-5) by (simp add: deliver_all_invariant)
  show ?case
    by (cases res) (simp_all add: step Cons.IH)
qed

lemma dispatch_loop_left: "snd (dispatch_loop d r rs s) = connection_fails rs"
  by (induction d r rs s rule: dispatch_loop.induct) (simp_all add: connection_fails_def)


lemma registry_global_trace:
  "trace (registry_global r n i v s) = trace s @
     (if i = ''wl_seat'' \<and> seat s = None then
        [Wl_registry_bind r n Wl_seat_interface (next_proxy s)]
      else if i = ''ext_idle_notifier_v1'' then
        [Wl_registry_bind r n Ext_idle_notifier_v1_interface (next_proxy s)]
      else [])"
  by (simp add: registry_global_def Let_def)

lemma registry_global_seat:
  "seat (registry_global r n i v s) =
     (if i = ''wl_seat'' \<and> seat s = None then Some (next_proxy s) else seat s)"
  by (simp add: registry_global_def Let_def)

lemma registry_global_notifier:
  "notifier (registry_global r n i v s) =
     (if i = ''ext_idle_notifier_v1'' then Some (next_proxy s) else notifier s)"
  by (auto simp add: registry_global_def Let_def)

lemma registry_global_next_proxy:
  "next_proxy (registry_global r n i v s) =
     (if i = ''wl_seat'' \<and> seat s = None \<or> i = ''ext_idle_notifier_v1''
      then Suc (next_proxy s) else next_proxy s)"
  by (simp add: registry_global_def Let_def)

lemma on_idled_simps [simp]:
  "trace (on_idled s) = trace s @ [Printf ''IDLE\<newline>'', Fflush]"
  "seat (on_idled s) = seat s"
  "notifier (on_idled s) = notifier s"
  "next_proxy (on_idled s) = next_proxy s"
  by (simp_all add: on_idled_def)

lemma on_resumed_simps [simp]:
  "trace (on_resumed s) = trace s @ [Printf ''RESUMED\<newline>'', Fflush]"
  "seat (on_resumed s) = seat s"
  "notifier (on_resumed s) = notifier s"
  "next_proxy (on_resumed s) = next_proxy s"
  by (simp_all add: on_resumed_def)

subsection \<open>What discovery and the loop add to the trace\<close>

lemma visit_globals_extends:
  "\<exists>t. trace (visit_globals r evs s) = trace s @ t \<and> list_all is_bind t"
  by (rule visit_globals_invariant) (auto simp: registry_global_trace)

lemma dispatch_loop_extends:
  "\<exists>t. trace (fst (dispatch_loop d r rs s)) = trace s @ t \<and> list_all loop_action t"
  by (rule dispatch_loop_invariant) (auto simp: registry_global_trace loop_action_def)

lemma binds_are_silent:
  assumes "list_all is_bind t" and "\<And>r n i p. f (Wl_registry_bind r n i p) = []"
  shows "concat (map f t) = []"
  using assms(1)
proof (induction t)
  case Nil
  then show ?case by simp
next
  case (Cons a t)
  then show ?case by (cases a) (simp_all add: assms(2))
qed

lemma loop_actions_are_silent:
  assumes "list_all loop_action t" and "\<And>r n i p. f (Wl_registry_bind r n i p) = []"
    and "\<And>d. f (Wl_display_dispatch d) = []" and "f Fflush = []"
    and "f (Printf ''IDLE\<newline>'') = []" and "f (Printf ''RESUMED\<newline>'') = []"
  shows "concat (map f t) = []"
  using assms(1)
proof (induction t)
  case Nil
  then show ?case by simp
next
  case (Cons a t)
  then show ?case by (cases a) (auto simp add: assms(2-) loop_action_def)
qed

subsection \<open>Discovery\<close>

lemma visit_globals_seat_None:
  "seat (visit_globals r evs s) = None \<longleftrightarrow> seat s = None \<and> advertised ''wl_seat'' evs = []"
proof (induction evs arbitrary: s)
  case Nil
  then show ?case by (simp add: advertised_def)
next
  case (Cons ev evs)
  then show ?case
    by (cases ev) (auto simp: advertised_def registry_global_seat registry_global_remove_def)
qed

lemma visit_globals_notifier_None:
  "notifier (visit_globals r evs s) = None \<longleftrightarrow>
     notifier s = None \<and> advertised ''ext_idle_notifier_v1'' evs = []"
proof (induction evs arbitrary: s)
  case Nil
  then show ?case by (simp add: advertised_def)
next
  case (Cons ev evs)
  then show ?case
    by (cases ev) (auto simp: advertised_def registry_global_notifier registry_global_remove_def)
qed

lemma visit_globals_seat_binds:
  "map fst (binds Wl_seat_interface (trace (visit_globals r evs s))) =
     map fst (binds Wl_seat_interface (trace s)) @
       (if seat s = None then take 1 (advertised ''wl_seat'' evs) else [])"
proof (induction evs arbitrary: s)
  case Nil
  then show ?case by (simp add: advertised_def)
next
  case (Cons ev evs)
  show ?case
  proof (cases ev)
    case (Global n i v)
    then show ?thesis
      by (auto simp add: Cons.IH advertised_def registry_global_trace registry_global_seat)
  next
    case (Global_remove n)
    then show ?thesis
      by (simp add: Cons.IH advertised_def registry_global_remove_def)
  qed
qed

lemma visit_globals_notifier_binds:
  "map fst (binds Ext_idle_notifier_v1_interface (trace (visit_globals r evs s))) =
     map fst (binds Ext_idle_notifier_v1_interface (trace s)) @
       advertised ''ext_idle_notifier_v1'' evs"
proof (induction evs arbitrary: s)
  case Nil
  then show ?case by (simp add: advertised_def)
next
  case (Cons ev evs)
  show ?case
  proof (cases ev)
    case (Global n i v)
    then show ?thesis
      by (simp add: Cons.IH advertised_def registry_global_trace)
  next
    case (Global_remove n)
    then show ?thesis
      by (simp add: Cons.IH advertised_def registry_global_remove_def)
  qed
qed

lemma discovered_seat_None:
  "seat (discovered e) = None \<longleftrightarrow> advertised ''wl_seat'' (roundtrip_events e) = []"
  by (simp add: discovered_def wl_display_roundtrip_def visit_globals_seat_None)

lemma discovered_notifier_None:
  "notifier (discovered e) = None \<longleftrightarrow>
     advertised ''ext_idle_notifier_v1'' (roundtrip_events e) = []"
  by (simp add: discovered_def wl_display_roundtrip_def visit_globals_notifier_None)

lemma discovered_trace:
  "\<exists>t. trace (discovered e) =
     [Wl_display_connect (Some 1), Wl_display_get_registry 1 2, Wl_registry_add_listener 2,
      Wl_display_roundtrip 1] @ t \<and> list_all is_bind t"
proof -
  define s where "s = call (Wl_display_roundtrip 1)
      \<lparr>seat = None, notifier = None, next_proxy = 3,
       trace = [Wl_display_connect (Some 1), Wl_display_get_registry 1 2,
                Wl_registry_add_listener 2]\<rparr>"
  obtain t where "trace (visit_globals 2 (roundtrip_events e) s) = trace s @ t"
    and "list_all is_bind t"
    using visit_globals_extends by blast
  then show ?thesis
    by (simp add: discovered_def wl_display_roundtrip_def s_def)
qed

lemma discovered_seat_binds:
  "map fst (binds Wl_seat_interface (trace (discovered e))) =
     take 1 (advertised ''wl_seat'' (roundtrip_events e))"
  by (simp add: discovered_def wl_display_roundtrip_def visit_globals_seat_binds)

lemma discovered_notifier_binds:
  "map fst (binds Ext_idle_notifier_v1_interface (trace (discovered e))) =
     advertised ''ext_idle_notifier_v1'' (roundtrip_events e)"
  by (simp add: discovered_def wl_display_roundtrip_def visit_globals_notifier_binds)

subsection \<open>The dispatch loop\<close>

lemma deliver_all_stdout:
  "stdout_lines (trace (deliver_all r evs s)) =
     stdout_lines (trace s) @ map token (filter is_notification evs)"
proof (induction evs arbitrary: s)
  case Nil
  then show ?case by simp
next
  case (Cons ev evs)
  have "stdout_lines (trace (deliver r ev s)) =
      stdout_lines (trace s) @ map token (filter is_notification [ev])"
  proof (cases ev)
    case (Registry x)
    then show ?thesis
      by (cases x) (simp_all add: registry_global_trace registry_global_remove_def)
  qed simp_all
  then show ?case
    by (simp add: Cons.IH)
qed

lemma dispatch_loop_stdout:
  "stdout_lines (trace (fst (dispatch_loop d r rs s))) =
     stdout_lines (trace s) @ map token (filter is_notification (delivered rs))"
proof (induction rs arbitrary: s)
  case Nil
  then show ?case by simp
next
  case (Cons res rs)
  have "stdout_lines (trace (call (Wl_display_dispatch d) s)) = stdout_lines (trace s)"
    by simp
  then show ?case
    by (cases res) (simp_all add: Cons.IH deliver_all_stdout)
qed

lemma flushed_append: "flushed xs \<Longrightarrow> flushed ys \<Longrightarrow> flushed (xs @ ys)"
  by (induction xs rule: flushed.induct) simp_all

lemma dispatch_loop_flushed:
  "flushed (trace s) \<Longrightarrow> flushed (trace (fst (dispatch_loop d r rs s)))"
  by (rule dispatch_loop_invariant) (simp_all add: registry_global_trace flushed_append)

lemma flushed_binds: "list_all is_bind t \<Longrightarrow> flushed t"
proof (induction t)
  case Nil
  then show ?case by simp
next
  case (Cons a t)
  then show ?case by (cases a) simp_all
qed

lemma dispatch_loop_seat_binds:
  assumes "seat s \<noteq> None"
  shows "binds Wl_seat_interface (trace (fst (dispatch_loop d r rs s))) =
     binds Wl_seat_interface (trace s)"
proof -
  have "seat (fst (dispatch_loop d r rs s)) \<noteq> None \<and>
     binds Wl_seat_interface (trace (fst (dispatch_loop d r rs s))) =
     binds Wl_seat_interface (trace s)"
    by (rule dispatch_loop_invariant)
      (auto simp: assms registry_global_trace registry_global_seat)
  then show ?thesis by simp
qed


subsection \<open>Handles and the objects they point to\<close>

lemma visit_globals_append:
  "visit_globals r (evs @ evs') s = visit_globals r evs' (visit_globals r evs s)"
  by (induction evs arbitrary: s) simp_all

lemma registry_global_linked:
  assumes "seat s = (case binds Wl_seat_interface (trace s) of [] \<Rightarrow> None | b # _ \<Rightarrow> Some (snd b))"
    and "notifier s = (case rev (binds Ext_idle_notifier_v1_interface (trace s)) of
           [] \<Rightarrow> None | b # _ \<Rightarrow> Some (snd b))"
  shows "seat (registry_global r n i v s) =
      (case binds Wl_seat_interface (trace (registry_global r n i v s)) of
         [] \<Rightarrow> None | b # _ \<Rightarrow> Some (snd b))
    \<and> notifier (registry_global r n i v s) =
      (case rev (binds Ext_idle_notifier_v1_interface (trace (registry_global r n i v s))) of
         [] \<Rightarrow> None | b # _ \<Rightarrow> Some (snd b))"
  using assms
  by (auto simp: registry_global_trace registry_global_seat registry_global_notifier
      split: list.splits)

lemma registry_global_allocated:
  assumes "notifier s \<noteq> Some q" and "q < next_proxy s"
  shows "notifier (registry_global r n i v s) \<noteq> Some q \<and> q < next_proxy (registry_global r n i v s)"
  using assms by (auto simp: registry_global_notifier registry_global_next_proxy)

lemma registry_global_below:
  assumes "\<forall>p. notifier s = Some p \<longrightarrow> p < next_proxy s"
  shows "\<forall>p. notifier (registry_global r n i v s) = Some p \<longrightarrow>
    p < next_proxy (registry_global r n i v s)"
  using assms by (auto simp: registry_global_notifier registry_global_next_proxy)

lemma visit_globals_linked: "linked s \<Longrightarrow> linked (visit_globals r evs s)"
  by (rule visit_globals_invariant) (simp_all add: linked_def registry_global_linked)

lemma dispatch_loop_linked: "linked s \<Longrightarrow> linked (fst (dispatch_loop d r rs s))"
  by (rule dispatch_loop_invariant) (simp_all add: linked_def registry_global_linked)

lemma discovered_linked: "linked (discovered e)"
  unfolding discovered_def wl_display_roundtrip_def
  by (rule visit_globals_linked) (simp add: linked_def)

lemma discovered_below:
  "notifier (discovered e) = Some p \<Longrightarrow> p < next_proxy (discovered e)"
proof -
  have "\<forall>p. notifier (discovered e) = Some p \<longrightarrow> p < next_proxy (discovered e)"
    unfolding discovered_def wl_display_roundtrip_def
    by (rule visit_globals_invariant) (simp_all add: registry_global_below)
  then show "notifier (discovered e) = Some p \<Longrightarrow> p < next_proxy (discovered e)"
    by simp
qed

lemma ready_simps:
  "seat (ready e) = seat (discovered e)"
  "notifier (ready e) = notifier (discovered e)"
  "next_proxy (ready e) = Suc (next_proxy (discovered e))"
  "trace (ready e) = trace (discovered e) @
     [Get_idle_notification (notifier (discovered e)) (parse_timeout (argv e))
        (seat (discovered e)) (next_proxy (discovered e)),
      Notification_add_listener (next_proxy (discovered e)), Printf ''READY\<newline>'', Fflush]"
  by (simp_all add: ready_def Let_def)

lemma ready_linked: "linked (ready e)"
  using discovered_linked [of e] by (simp add: linked_def ready_simps)

lemma dispatch_loop_notifier_fresh:
  "notifier (fst (dispatch_loop 1 2 rs (ready e))) \<noteq> Some (next_proxy (discovered e))"
proof -
  have "notifier (fst (dispatch_loop 1 2 rs (ready e))) \<noteq> Some (next_proxy (discovered e))
      \<and> next_proxy (discovered e) < next_proxy (fst (dispatch_loop 1 2 rs (ready e)))"
  proof (rule dispatch_loop_invariant)
    show "notifier (ready e) \<noteq> Some (next_proxy (discovered e)) \<and>
        next_proxy (discovered e) < next_proxy (ready e)"
      using discovered_below [of e "next_proxy (discovered e)"] by (auto simp: ready_simps)
  qed (simp_all add: registry_global_allocated)
  then show ?thesis by simp
qed

subsection \<open>The shape of a run\<close>

lemma subscribes_iff:
  "subscribes e \<longleftrightarrow>
     connect_result e \<and> seat (discovered e) \<noteq> None \<and> notifier (discovered e) \<noteq> None"
  by (simp add: subscribes_def discovered_seat_None discovered_notifier_None)

lemma run_not_connected:
  assumes "\<not> connect_result e"
  shows "run_trace e = [Wl_display_connect None,
      Fprintf_stderr ''ERROR: Cannot connect to Wayland display\<newline>'']"
    and "exit_status e = Some 1"
  using assms by (simp_all add: run_trace_def exit_status_def main_unfold)

lemma run_no_seat:
  assumes "connect_result e" and "advertised ''wl_seat'' (roundtrip_events e) = []"
  shows "run_trace e = trace (discovered e) @
      [Fprintf_stderr ''ERROR: No wl_seat found\<newline>'', Wl_display_disconnect 1]"
    and "exit_status e = Some 1"
  using assms by (simp_all add: run_trace_def exit_status_def main_unfold discovered_seat_None)

lemma run_no_notifier:
  assumes "connect_result e" and "advertised ''wl_seat'' (roundtrip_events e) \<noteq> []"
    and "advertised ''ext_idle_notifier_v1'' (roundtrip_events e) = []"
  shows "run_trace e = trace (discovered e) @
      [Fprintf_stderr ''ERROR: ext_idle_notifier_v1 not supported\<newline>'',
       Wl_display_disconnect 1]"
    and "exit_status e = Some 1"
  using assms
  by (simp_all add: run_trace_def exit_status_def main_unfold discovered_seat_None
      discovered_notifier_None)

lemma run_subscribes:
  assumes "subscribes e"
  shows "run_trace e = trace (fst (dispatch_loop 1 2 (dispatch_results e) (ready e))) @
      (if connection_fails (dispatch_results e) then
         [Notification_destroy (next_proxy (discovered e)),
          Notifier_destroy (notifier (fst (dispatch_loop 1 2 (dispatch_results e) (ready e)))),
          Wl_display_disconnect 1]
       else [])"
    and "exit_status e = (if connection_fails (dispatch_results e) then Some 0 else None)"
    and "notifier (fst (main e)) =
      notifier (fst (dispatch_loop 1 2 (dispatch_results e) (ready e)))"
proof -
  have c: "connect_result e" and s: "seat (discovered e) \<noteq> None"
    and n: "notifier (discovered e) \<noteq> None"
    using assms by (simp_all add: subscribes_iff del: not_None_eq)
  show "run_trace e = trace (fst (dispatch_loop 1 2 (dispatch_results e) (ready e))) @
      (if connection_fails (dispatch_results e) then
         [Notification_destroy (next_proxy (discovered e)),
          Notifier_destroy (notifier (fst (dispatch_loop 1 2 (dispatch_results e) (ready e)))),
          Wl_display_disconnect 1]
       else [])"
    by (simp add: run_trace_def main_unfold c s n Let_def dispatch_loop_left)
  show "exit_status e = (if connection_fails (dispatch_results e) then Some 0 else None)"
    by (simp add: exit_status_def main_unfold c s n Let_def dispatch_loop_left)
  show "notifier (fst (main e)) =
      notifier (fst (dispatch_loop 1 2 (dispatch_results e) (ready e)))"
    by (simp add: main_unfold c s n Let_def dispatch_loop_left)
qed

subsection \<open>The example runs, evaluated\<close>

lemmas run_defs =
  main_def run_trace_def exit_status_def initial_state_def call_def Let_def
  wl_display_roundtrip_def registry_global_def registry_global_remove_def
  on_idled_def on_resumed_def

lemma parse_timeout_5000: "parse_timeout [''wayland-idle-helper'', ''5000''] = 5000"
  by (simp add: parse_timeout_def atol_def isspace_def isdigit_def digit_val_def LONG_MAX_def)

lemma session_run:
  "run_trace session =
     [Wl_display_connect (Some 1), Wl_display_get_registry 1 2, Wl_registry_add_listener 2,
      Wl_display_roundtrip 1,
      Wl_registry_bind 2 2 Wl_seat_interface 3,
      Wl_registry_bind 2 3 Ext_idle_notifier_v1_interface 4,
      Get_idle_notification (Some 4) 5000 (Some 3) 5, Notification_add_listener 5,
      Printf ''READY\<newline>'', Fflush,
      Wl_display_dispatch 1, Printf ''IDLE\<newline>'', Fflush,
      Wl_display_dispatch 1, Printf ''RESUMED\<newline>'', Fflush, Printf ''IDLE\<newline>'', Fflush,
      Wl_display_dispatch 1,
      Notification_destroy 5, Notifier_destroy (Some 4), Wl_display_disconnect 1]"
  "exit_status session = Some 0"
  by (simp_all add: session_def run_defs parse_timeout_5000)

lemma bare_compositor_run:
  "run_trace bare_compositor =
     [Wl_display_connect (Some 1), Wl_display_get_registry 1 2, Wl_registry_add_listener 2,
      Wl_display_roundtrip 1,
      Fprintf_stderr ''ERROR: No wl_seat found\<newline>'', Wl_display_disconnect 1]"
  "exit_status bare_compositor = Some 1"
  by (simp_all add: bare_compositor_def run_defs)

lemma seat_only_run:
  "run_trace seat_only =
     [Wl_display_connect (Some 1), Wl_display_get_registry 1 2, Wl_registry_add_listener 2,
      Wl_display_roundtrip 1, Wl_registry_bind 2 2 Wl_seat_interface 3,
      Fprintf_stderr ''ERROR: ext_idle_notifier_v1 not supported\<newline>'',
      Wl_display_disconnect 1]"
  "exit_status seat_only = Some 1"
  by (simp_all add: seat_only_def run_defs)

lemma session_subscribes: "subscribes session"
  by (simp add: subscribes_def session_def advertised_def)

subsection \<open>Output lines\<close>

text \<open>
  Claim C2. In a run that reaches the dispatch loop, the lines on standard output are
  \<^verbatim>\<open>READY\<close> and then one line for each idled or resumed event that the calls of
  \<^verbatim>\<open>wl_display_dispatch\<close> delivered, in the order of delivery: \<^verbatim>\<open>IDLE\<close> for
  idled, \<^verbatim>\<open>RESUMED\<close> for resumed. In every run each \<^verbatim>\<open>printf\<close> is followed at
  once by \<^verbatim>\<open>fflush\<close>.
\<close>

theorem notification_lines:
  "flushed (run_trace e) \<and>
   (subscribes e \<longrightarrow>
      stdout_lines (run_trace e) =
        ''READY\<newline>'' # map token (filter is_notification (delivered (dispatch_results e))))"
proof
  show "flushed (run_trace e)"
  proof -
    obtain t where t: "trace (discovered e) =
        [Wl_display_connect (Some 1), Wl_display_get_registry 1 2, Wl_registry_add_listener 2,
         Wl_display_roundtrip 1] @ t" "list_all is_bind t"
      using discovered_trace by blast
    have d: "flushed (trace (discovered e))"
      using t by (simp add: flushed_binds)
    have r: "flushed (trace (ready e))"
      unfolding ready_simps by (rule flushed_append [OF d]) simp
    have l: "flushed (trace (fst (dispatch_loop 1 2 (dispatch_results e) (ready e))))"
      using r by (rule dispatch_loop_flushed)
    consider "\<not> connect_result e"
      | "connect_result e" "advertised ''wl_seat'' (roundtrip_events e) = []"
      | "connect_result e" "advertised ''wl_seat'' (roundtrip_events e) \<noteq> []"
        "advertised ''ext_idle_notifier_v1'' (roundtrip_events e) = []"
      | "subscribes e"
      by (auto simp: subscribes_def)
    then show ?thesis
    proof cases
      case 1
      then show ?thesis by (simp add: run_not_connected)
    next
      case 2
      then show ?thesis using d by (simp add: run_no_seat flushed_append)
    next
      case 3
      then show ?thesis using d by (simp add: run_no_notifier flushed_append)
    next
      case 4
      then show ?thesis using l by (simp add: run_subscribes flushed_append)
    qed
  qed
next
  show "subscribes e \<longrightarrow>
      stdout_lines (run_trace e) =
        ''READY\<newline>'' # map token (filter is_notification (delivered (dispatch_results e)))"
  proof
    assume s: "subscribes e"
    obtain t where t: "trace (discovered e) =
        [Wl_display_connect (Some 1), Wl_display_get_registry 1 2, Wl_registry_add_listener 2,
         Wl_display_roundtrip 1] @ t" "list_all is_bind t"
      using discovered_trace by blast
    have "stdout_lines t = []"
      unfolding stdout_lines_def using t(2) by (rule binds_are_silent) simp
    then have "stdout_lines (trace (ready e)) = [''READY\<newline>'']"
      by (simp add: ready_simps t(1))
    then show "stdout_lines (run_trace e) =
        ''READY\<newline>'' # map token (filter is_notification (delivered (dispatch_results e)))"
      by (simp add: run_subscribes [OF s] dispatch_loop_stdout)
  qed
qed

theorem notification_lines_witness:
  "subscribes session \<and> flushed (run_trace session) \<and>
   stdout_lines (run_trace session) =
     [''READY\<newline>'', ''IDLE\<newline>'', ''RESUMED\<newline>'', ''IDLE\<newline>'']"
proof -
  have "delivered (dispatch_results session) = [Idled, Resumed, Idled]"
    by (simp add: session_def)
  then show ?thesis
    using notification_lines [of session] session_subscribes by simp
qed


subsection \<open>Binding the seat\<close>

text \<open>
  Claim C6. Over a whole run the seat binds are the first \<^verbatim>\<open>wl_seat\<close> global
  advertised in discovery, if there is one, and nothing else: every later seat
  advertisement is ignored, and at most one seat is ever bound.
\<close>

theorem seat_bound_once:
  "map fst (binds Wl_seat_interface (run_trace e)) =
     (if connect_result e then take 1 (advertised ''wl_seat'' (roundtrip_events e)) else [])
   \<and> length (binds Wl_seat_interface (run_trace e)) \<le> 1"
proof -
  have names: "map fst (binds Wl_seat_interface (run_trace e)) =
     (if connect_result e then take 1 (advertised ''wl_seat'' (roundtrip_events e)) else [])"
  proof -
    consider "\<not> connect_result e"
      | "connect_result e" "advertised ''wl_seat'' (roundtrip_events e) = []"
      | "connect_result e" "advertised ''wl_seat'' (roundtrip_events e) \<noteq> []"
        "advertised ''ext_idle_notifier_v1'' (roundtrip_events e) = []"
      | "subscribes e"
      by (auto simp: subscribes_def)
    then show ?thesis
    proof cases
      case 1
      then show ?thesis by (simp add: run_not_connected)
    next
      case 2
      then show ?thesis by (simp add: run_no_seat discovered_seat_binds)
    next
      case 3
      then show ?thesis by (simp add: run_no_notifier discovered_seat_binds)
    next
      case 4
      then have "seat (ready e) \<noteq> None"
        by (simp add: subscribes_iff ready_simps del: not_None_eq)
      then have "binds Wl_seat_interface
          (trace (fst (dispatch_loop 1 2 (dispatch_results e) (ready e)))) =
          binds Wl_seat_interface (trace (ready e))"
        by (rule dispatch_loop_seat_binds)
      moreover have "connect_result e"
        using 4 by (simp add: subscribes_def)
      ultimately show ?thesis
        by (simp add: run_subscribes [OF 4] ready_simps discovered_seat_binds)
    qed
  qed
  have "length (binds Wl_seat_interface (run_trace e)) =
      length (map fst (binds Wl_seat_interface (run_trace e)))"
    by simp
  also have "\<dots> \<le> 1"
    unfolding names by simp
  finally show ?thesis
    using names by simp
qed

theorem seat_bound_once_witness:
  "advertised ''wl_seat'' (roundtrip_events session) = [2, 4] \<and>
   binds Wl_seat_interface (run_trace session) = [(2, 3)]"
proof -
  have "advertised ''wl_seat'' (roundtrip_events session) = [2, 4]"
    by (simp add: session_def advertised_def)
  moreover have "connect_result session"
    by (simp add: session_def)
  ultimately show ?thesis
    using seat_bound_once [of session] by (simp add: session_run)
qed

subsection \<open>The readiness line\<close>

text \<open>
  Claim C1. \<^verbatim>\<open>READY\<close> is written to standard output exactly in the runs that connect
  and find both capabilities advertised in discovery, which are exactly the runs in which
  a seat and an idle notifier are bound and the notification object is requested. In
  such a run it is written exactly once, and in any other run not at all. It comes after
  discovery and the subscription: the part of the run before it holds the bind of the
  first advertised seat, the binds of all advertised idle notifiers, and the one request
  for a notification object that the run makes. Before it nothing is printed and
  \<^verbatim>\<open>wl_display_dispatch\<close> is not called: it comes before the dispatch loop and never
  after an \<^verbatim>\<open>IDLE\<close> or \<^verbatim>\<open>RESUMED\<close> line.
\<close>

theorem ready_token:
  "(''READY\<newline>'' \<in> set (stdout_lines (run_trace e)) \<longleftrightarrow> subscribes e)
   \<and> (''READY\<newline>'' \<in> set (stdout_lines (run_trace e)) \<longleftrightarrow>
      binds Wl_seat_interface (run_trace e) \<noteq> [] \<and>
      binds Ext_idle_notifier_v1_interface (run_trace e) \<noteq> [] \<and>
      subscriptions (run_trace e) \<noteq> [])
   \<and> count_list (stdout_lines (run_trace e)) ''READY\<newline>'' = (if subscribes e then 1 else 0)
   \<and> (subscribes e \<longrightarrow>
      binds Wl_seat_interface (before_ready (run_trace e)) \<noteq> [] \<and>
      map fst (binds Wl_seat_interface (before_ready (run_trace e))) =
        take 1 (advertised ''wl_seat'' (roundtrip_events e)) \<and>
      binds Ext_idle_notifier_v1_interface (before_ready (run_trace e)) \<noteq> [] \<and>
      map fst (binds Ext_idle_notifier_v1_interface (before_ready (run_trace e))) =
        advertised ''ext_idle_notifier_v1'' (roundtrip_events e) \<and>
      length (subscriptions (run_trace e)) = 1 \<and>
      subscriptions (before_ready (run_trace e)) = subscriptions (run_trace e))
   \<and> list_all (\<lambda>a. \<not> is_dispatch a \<and> printed a = []) (before_ready (run_trace e))"
proof -
  obtain t where t: "trace (discovered e) =
      [Wl_display_connect (Some 1), Wl_display_get_registry 1 2, Wl_registry_add_listener 2,
       Wl_display_roundtrip 1] @ t" "list_all is_bind t"
    using discovered_trace by blast
  have quiet: "stdout_lines t = []" "subscriptions t = []"
    unfolding stdout_lines_def subscriptions_def
    using t(2) by (rule binds_are_silent, simp)+
  have quiet_d: "stdout_lines (trace (discovered e)) = []"
    "subscriptions (trace (discovered e)) = []"
    by (simp_all add: t(1) quiet)
  have before: "list_all (\<lambda>a. \<not> is_dispatch a \<and> printed a = [] \<and> a \<noteq> Printf ''READY\<newline>'')
      (trace (discovered e))"
  proof -
    have "list_all (\<lambda>a. \<not> is_dispatch a \<and> printed a = [] \<and> a \<noteq> Printf ''READY\<newline>'') t"
      using t(2) by (induction t) (auto elim: is_bind.elims)
    then show ?thesis by (simp add: t(1))
  qed
  have sb: "binds Wl_seat_interface (trace (discovered e)) = [] \<longleftrightarrow>
      advertised ''wl_seat'' (roundtrip_events e) = []"
    using discovered_seat_binds [of e] by (metis map_is_Nil_conv take_eq_Nil zero_neq_one)
  have nb: "binds Ext_idle_notifier_v1_interface (trace (discovered e)) = [] \<longleftrightarrow>
      advertised ''ext_idle_notifier_v1'' (roundtrip_events e) = []"
    using discovered_notifier_binds [of e] by (metis map_is_Nil_conv)
  consider "\<not> connect_result e"
    | "connect_result e" "advertised ''wl_seat'' (roundtrip_events e) = []"
    | "connect_result e" "advertised ''wl_seat'' (roundtrip_events e) \<noteq> []"
      "advertised ''ext_idle_notifier_v1'' (roundtrip_events e) = []"
    | "subscribes e"
    by (auto simp: subscribes_def)
  then show ?thesis
  proof cases
    case 1
    then show ?thesis
      by (simp add: run_not_connected subscribes_def before_ready_def)
  next
    case 2
    then have no: "\<not> subscribes e"
      by (simp add: subscribes_def)
    show ?thesis
      using 2 before
      by (simp add: no run_no_seat sb quiet_d before_ready_def list_all_iff)
  next
    case 3
    then have no: "\<not> subscribes e"
      by (simp add: subscribes_def)
    show ?thesis
      using 3 before
      by (simp add: no run_no_notifier nb quiet_d before_ready_def list_all_iff)
  next
    case 4
    let ?request = "Get_idle_notification (notifier (discovered e)) (parse_timeout (argv e))
          (seat (discovered e)) (next_proxy (discovered e))"
    obtain u where u: "trace (fst (dispatch_loop 1 2 (dispatch_results e) (ready e))) =
        trace (ready e) @ u" "list_all loop_action u"
      using dispatch_loop_extends by blast
    have not_ready: "''READY\<newline>'' \<notin> set (stdout_lines u)"
      using u(2) by (induction u) (auto simp: loop_action_def elim: is_bind.elims is_dispatch.elims)
    have no_request: "subscriptions u = []"
      unfolding subscriptions_def using u(2) by (rule loop_actions_are_silent) simp_all
    have shape: "run_trace e = trace (discovered e) @
        ?request # Notification_add_listener (next_proxy (discovered e)) #
        Printf ''READY\<newline>'' # Fflush # u @
        (if connection_fails (dispatch_results e) then
           [Notification_destroy (next_proxy (discovered e)),
            Notifier_destroy (notifier (fst (dispatch_loop 1 2 (dispatch_results e) (ready e)))),
            Wl_display_disconnect 1]
         else [])"
      using u(1) by (simp add: run_subscribes(1) [OF 4] ready_simps)
    have a: "''READY\<newline>'' \<in> set (stdout_lines (run_trace e))"
      by (simp add: shape)
    have b: "binds Wl_seat_interface (run_trace e) \<noteq> []"
      "binds Ext_idle_notifier_v1_interface (run_trace e) \<noteq> []"
      "subscriptions (run_trace e) \<noteq> []"
      using 4 sb nb by (simp_all add: shape subscribes_def)
    have c: "count_list (stdout_lines (run_trace e)) ''READY\<newline>'' = 1"
      using not_ready by (simp add: shape quiet_d count_list_0_iff)
    have pre: "before_ready (run_trace e) =
        trace (discovered e) @ [?request, Notification_add_listener (next_proxy (discovered e))]"
      using before unfolding shape before_ready_def
      by (subst takeWhile_append2) (auto simp: list_all_iff)
    have d: "list_all (\<lambda>a. \<not> is_dispatch a \<and> printed a = []) (before_ready (run_trace e))"
      unfolding pre using before by (simp add: list_all_iff)
    have subs: "subscriptions (run_trace e) =
        [(notifier (discovered e), parse_timeout (argv e), seat (discovered e))]"
      by (simp add: shape quiet_d no_request)
    have f: "binds Wl_seat_interface (before_ready (run_trace e)) \<noteq> []"
      "binds Ext_idle_notifier_v1_interface (before_ready (run_trace e)) \<noteq> []"
      using 4 sb nb by (simp_all add: pre subscribes_def)
    have g: "map fst (binds Wl_seat_interface (before_ready (run_trace e))) =
        take 1 (advertised ''wl_seat'' (roundtrip_events e))"
      "map fst (binds Ext_idle_notifier_v1_interface (before_ready (run_trace e))) =
        advertised ''ext_idle_notifier_v1'' (roundtrip_events e)"
      by (simp_all add: pre discovered_seat_binds discovered_notifier_binds)
    have h: "length (subscriptions (run_trace e)) = 1"
      "subscriptions (before_ready (run_trace e)) = subscriptions (run_trace e)"
      by (simp_all add: subs) (simp add: pre quiet_d)
    show ?thesis
      using 4 a b c d f g h by simp
  qed
qed

theorem ready_token_witness:
  "subscribes session \<and>
   ''READY\<newline>'' \<in> set (stdout_lines (run_trace session)) \<and>
   count_list (stdout_lines (run_trace session)) ''READY\<newline>'' = 1 \<and>
   before_ready (run_trace session) =
     [Wl_display_connect (Some 1), Wl_display_get_registry 1 2, Wl_registry_add_listener 2,
      Wl_display_roundtrip 1,
      Wl_registry_bind 2 2 Wl_seat_interface 3,
      Wl_registry_bind 2 3 Ext_idle_notifier_v1_interface 4,
      Get_idle_notification (Some 4) 5000 (Some 3) 5, Notification_add_listener 5] \<and>
   subscriptions (before_ready (run_trace session)) = [(Some 4, 5000, Some 3)] \<and>
   \<not> subscribes bare_compositor \<and>
   ''READY\<newline>'' \<notin> set (stdout_lines (run_trace bare_compositor)) \<and>
   count_list (stdout_lines (run_trace bare_compositor)) ''READY\<newline>'' = 0 \<and>
   binds Wl_seat_interface (run_trace bare_compositor) = []"
proof -
  have "\<not> subscribes bare_compositor"
    by (simp add: subscribes_def bare_compositor_def advertised_def)
  then show ?thesis
    using ready_token [of session] ready_token [of bare_compositor] session_subscribes
    by (simp add: session_run bare_compositor_run before_ready_def)
qed

subsection \<open>Leaving the dispatch loop\<close>

text \<open>
  Claim C3 as it is written fails on the example session: the loop ends because
  \<^verbatim>\<open>wl_display_dispatch\<close> returns \<^verbatim>\<open>-1\<close>, and the exit status is 0.
\<close>

theorem dispatch_failure_exit_counterexample:
  "subscribes session \<and> connection_fails (dispatch_results session) \<and>
   exit_status session = Some 0"
  by (simp add: session_subscribes session_run) (simp add: session_def connection_fails_def)

text \<open>
  Claim C3, amended. When the dispatch loop ends because a call of
  \<^verbatim>\<open>wl_display_dispatch\<close> fails, \<^verbatim>\<open>main\<close> destroys the notification object it
  requested, destroys the notifier handle it holds at that time, disconnects the display,
  and returns 0.
\<close>

theorem dispatch_failure_exit:
  assumes "subscribes e" and "connection_fails (dispatch_results e)"
  shows "exit_status e = Some 0 \<and>
    (\<exists>pre nt t st p. run_trace e =
        pre @ [Notification_destroy p, Notifier_destroy (notifier (fst (main e))),
               Wl_display_disconnect 1] \<and>
      Wl_display_connect (Some 1) \<in> set pre \<and>
      Get_idle_notification nt t st p \<in> set pre) \<and>
    notifier (fst (main e)) \<noteq> None"
proof -
  let ?l = "fst (dispatch_loop 1 2 (dispatch_results e) (ready e))"
  obtain t where t: "trace (discovered e) =
      [Wl_display_connect (Some 1), Wl_display_get_registry 1 2, Wl_registry_add_listener 2,
       Wl_display_roundtrip 1] @ t"
    using discovered_trace by blast
  obtain u where u: "trace ?l = trace (ready e) @ u"
    using dispatch_loop_extends by blast
  have "run_trace e = trace ?l @ [Notification_destroy (next_proxy (discovered e)),
      Notifier_destroy (notifier (fst (main e))), Wl_display_disconnect 1]"
    using assms by (simp add: run_subscribes)
  moreover have "Wl_display_connect (Some 1) \<in> set (trace ?l)"
    unfolding u ready_simps t by simp
  moreover have "Get_idle_notification (notifier (discovered e)) (parse_timeout (argv e))
      (seat (discovered e)) (next_proxy (discovered e)) \<in> set (trace ?l)"
    unfolding u ready_simps by simp
  ultimately have teardown: "\<exists>pre nt t st p. run_trace e =
        pre @ [Notification_destroy p, Notifier_destroy (notifier (fst (main e))),
               Wl_display_disconnect 1] \<and>
      Wl_display_connect (Some 1) \<in> set pre \<and>
      Get_idle_notification nt t st p \<in> set pre"
    by blast
  have "notifier ?l \<noteq> None"
  proof (rule dispatch_loop_invariant)
    show "notifier (ready e) \<noteq> None"
      using assms(1) by (simp add: subscribes_iff ready_simps del: not_None_eq)
  qed (simp_all add: registry_global_notifier)
  then have "notifier (fst (main e)) \<noteq> None"
    using assms(1) by (simp add: run_subscribes del: not_None_eq)
  then show ?thesis
    using teardown assms by (simp add: run_subscribes(2) del: not_None_eq)
qed

theorem dispatch_failure_exit_witness:
  "subscribes session \<and> connection_fails (dispatch_results session) \<and>
   exit_status session = Some 0 \<and> notifier (fst (main session)) \<noteq> None"
proof -
  have f: "connection_fails (dispatch_results session)"
    by (simp add: session_def connection_fails_def)
  show ?thesis
    using dispatch_failure_exit [OF session_subscribes f] session_subscribes f by simp
qed

subsection \<open>Missing capabilities\<close>

text \<open>
  Claim C5 as it is written fails when neither capability is advertised: the idle
  notifier is not advertised, and the one line on standard error is about the seat and
  does not mention the idle notifier.
\<close>

theorem missing_capability_counterexample:
  "connect_result bare_compositor \<and>
   advertised ''ext_idle_notifier_v1'' (roundtrip_events bare_compositor) = [] \<and>
   stderr_lines (run_trace bare_compositor) = [''ERROR: No wl_seat found\<newline>''] \<and>
   \<not> sublist ''ext_idle_notifier_v1'' ''ERROR: No wl_seat found\<newline>''"
  by (simp add: bare_compositor_run sublist_Cons_right) (simp add: bare_compositor_def advertised_def)

text \<open>
  Claim C5, amended. After the connection has opened: when no \<^verbatim>\<open>wl_seat\<close> is
  advertised in discovery, standard error receives exactly the line
  \<^verbatim>\<open>ERROR: No wl_seat found\<close>; when a \<^verbatim>\<open>wl_seat\<close> is advertised and no
  \<^verbatim>\<open>ext_idle_notifier_v1\<close>, exactly the line
  \<^verbatim>\<open>ERROR: ext_idle_notifier_v1 not supported\<close>. In both cases the exit status is 1,
  nothing is written to standard output, and the display is disconnected once, as the
  last call.
\<close>

theorem missing_capability:
  assumes "connect_result e"
  shows "(advertised ''wl_seat'' (roundtrip_events e) = [] \<longrightarrow>
       stderr_lines (run_trace e) = [''ERROR: No wl_seat found\<newline>''] \<and>
       exit_status e = Some 1 \<and> stdout_lines (run_trace e) = [] \<and>
       disconnected (run_trace e) = [1] \<and> last (run_trace e) = Wl_display_disconnect 1)
    \<and> (advertised ''wl_seat'' (roundtrip_events e) \<noteq> [] \<and>
       advertised ''ext_idle_notifier_v1'' (roundtrip_events e) = [] \<longrightarrow>
       stderr_lines (run_trace e) = [''ERROR: ext_idle_notifier_v1 not supported\<newline>''] \<and>
       exit_status e = Some 1 \<and> stdout_lines (run_trace e) = [] \<and>
       disconnected (run_trace e) = [1] \<and> last (run_trace e) = Wl_display_disconnect 1)
    \<and> prefix ''ERROR:'' ''ERROR: No wl_seat found\<newline>''
    \<and> sublist ''wl_seat'' ''ERROR: No wl_seat found\<newline>''
    \<and> prefix ''ERROR:'' ''ERROR: ext_idle_notifier_v1 not supported\<newline>''
    \<and> sublist ''ext_idle_notifier_v1'' ''ERROR: ext_idle_notifier_v1 not supported\<newline>''"
proof -
  obtain t where t: "trace (discovered e) =
      [Wl_display_connect (Some 1), Wl_display_get_registry 1 2, Wl_registry_add_listener 2,
       Wl_display_roundtrip 1] @ t" "list_all is_bind t"
    using discovered_trace by blast
  have quiet: "stdout_lines t = []" "stderr_lines t = []" "disconnected t = []"
    unfolding stdout_lines_def stderr_lines_def disconnected_def
    using t(2) by (rule binds_are_silent, simp)+
  have d: "stdout_lines (trace (discovered e)) = []" "stderr_lines (trace (discovered e)) = []"
    "disconnected (trace (discovered e)) = []"
    by (simp_all add: t(1) quiet)
  have "sublist ''wl_seat'' (''ERROR: No '' @ ''wl_seat'' @ '' found\<newline>'')"
    by (rule sublist_appendI)
  moreover have "sublist ''ext_idle_notifier_v1''
      (''ERROR: '' @ ''ext_idle_notifier_v1'' @ '' not supported\<newline>'')"
    by (rule sublist_appendI)
  ultimately show ?thesis
    using assms by (auto simp: run_no_seat run_no_notifier d)
qed

theorem missing_capability_witness:
  "connect_result bare_compositor \<and> advertised ''wl_seat'' (roundtrip_events bare_compositor) = [] \<and>
   stderr_lines (run_trace bare_compositor) = [''ERROR: No wl_seat found\<newline>''] \<and>
   exit_status bare_compositor = Some 1 \<and>
   connect_result seat_only \<and> advertised ''wl_seat'' (roundtrip_events seat_only) \<noteq> [] \<and>
   advertised ''ext_idle_notifier_v1'' (roundtrip_events seat_only) = [] \<and>
   stderr_lines (run_trace seat_only) = [''ERROR: ext_idle_notifier_v1 not supported\<newline>''] \<and>
   exit_status seat_only = Some 1"
proof -
  have b: "connect_result bare_compositor"
    "advertised ''wl_seat'' (roundtrip_events bare_compositor) = []"
    by (simp_all add: bare_compositor_def advertised_def)
  have s: "connect_result seat_only"
    "advertised ''wl_seat'' (roundtrip_events seat_only) \<noteq> []"
    "advertised ''ext_idle_notifier_v1'' (roundtrip_events seat_only) = []"
    by (simp_all add: seat_only_def advertised_def)
  show ?thesis
    using missing_capability [OF b(1)] missing_capability [OF s(1)] b s by simp
qed

subsection \<open>Binding the idle notifier\<close>

lemma two_notifiers_run:
  "run_trace two_notifiers =
     [Wl_display_connect (Some 1), Wl_display_get_registry 1 2, Wl_registry_add_listener 2,
      Wl_display_roundtrip 1,
      Wl_registry_bind 2 1 Ext_idle_notifier_v1_interface 3,
      Wl_registry_bind 2 2 Wl_seat_interface 4,
      Wl_registry_bind 2 3 Ext_idle_notifier_v1_interface 5,
      Get_idle_notification (Some 5) 10000 (Some 4) 6, Notification_add_listener 6,
      Printf ''READY\<newline>'', Fflush, Wl_display_dispatch 1]"
  by (simp add: two_notifiers_def run_defs parse_timeout_def)

text \<open>
  Claim C7 as it is written fails when the idle notifier is advertised twice: it is bound
  twice.
\<close>

theorem notifier_bound_once_counterexample:
  "advertised ''ext_idle_notifier_v1'' (roundtrip_events two_notifiers) = [1, 3] \<and>
   binds Ext_idle_notifier_v1_interface (run_trace two_notifiers) = [(1, 3), (3, 5)]"
  by (simp add: two_notifiers_run) (simp add: two_notifiers_def advertised_def)

lemma registry_listener_notifier_last:
  assumes "advertised ''ext_idle_notifier_v1'' [ev] \<noteq> [] \<or>
    notifier s = Some (snd (last (binds Ext_idle_notifier_v1_interface (trace s))))"
  shows "notifier (registry_listener r ev s) =
    Some (snd (last (binds Ext_idle_notifier_v1_interface (trace (registry_listener r ev s)))))"
proof (cases ev)
  case (Global n i v)
  then show ?thesis
    using assms
    by (auto simp: advertised_def registry_global_trace registry_global_notifier)
next
  case (Global_remove n)
  then show ?thesis
    using assms by (simp add: advertised_def registry_global_remove_def)
qed

lemma visit_globals_notifier_last:
  "advertised ''ext_idle_notifier_v1'' evs \<noteq> [] \<Longrightarrow>
     notifier (visit_globals r evs s) =
       Some (snd (last (binds Ext_idle_notifier_v1_interface (trace (visit_globals r evs s)))))"
proof (induction evs rule: rev_induct)
  case Nil
  then show ?case by (simp add: advertised_def)
next
  case (snoc ev evs)
  have "advertised ''ext_idle_notifier_v1'' [ev] \<noteq> [] \<or>
      advertised ''ext_idle_notifier_v1'' evs \<noteq> []"
    using snoc.prems by (auto simp: advertised_def)
  then have "advertised ''ext_idle_notifier_v1'' [ev] \<noteq> [] \<or>
      notifier (visit_globals r evs s) =
        Some (snd (last (binds Ext_idle_notifier_v1_interface (trace (visit_globals r evs s)))))"
    using snoc.IH by blast
  then show ?case
    by (simp add: visit_globals_append registry_listener_notifier_last)
qed

text \<open>
  Claim C7, amended. \<^verbatim>\<open>wl_display_roundtrip\<close> binds the idle notifier once for each
  advertisement of \<^verbatim>\<open>ext_idle_notifier_v1\<close>, in order, so exactly once when it is
  advertised once; when it is advertised at all, the \<^verbatim>\<open>notifier\<close> handle ends up
  holding the object bound last.
\<close>

theorem notifier_bound_per_advertisement:
  "map fst (binds Ext_idle_notifier_v1_interface (trace (wl_display_roundtrip d r evs s))) =
     map fst (binds Ext_idle_notifier_v1_interface (trace s)) @
       advertised ''ext_idle_notifier_v1'' evs
   \<and> (advertised ''ext_idle_notifier_v1'' evs \<noteq> [] \<longrightarrow>
        notifier (wl_display_roundtrip d r evs s) =
          Some (snd (last (binds Ext_idle_notifier_v1_interface
            (trace (wl_display_roundtrip d r evs s))))))"
  by (simp add: wl_display_roundtrip_def visit_globals_notifier_binds
      visit_globals_notifier_last)

theorem notifier_bound_per_advertisement_witness:
  "advertised ''ext_idle_notifier_v1'' (roundtrip_events two_notifiers) = [1, 3] \<and>
   map fst (binds Ext_idle_notifier_v1_interface
     (trace (wl_display_roundtrip 1 2 (roundtrip_events two_notifiers) initial_state))) = [1, 3] \<and>
   notifier (wl_display_roundtrip 1 2 (roundtrip_events two_notifiers) initial_state) = Some 3 \<and>
   advertised ''ext_idle_notifier_v1'' (roundtrip_events session) = [3] \<and>
   map fst (binds Ext_idle_notifier_v1_interface
     (trace (wl_display_roundtrip 1 2 (roundtrip_events session) initial_state))) = [3]"
proof -
  have a: "advertised ''ext_idle_notifier_v1'' (roundtrip_events two_notifiers) = [1, 3]"
    "advertised ''ext_idle_notifier_v1'' (roundtrip_events session) = [3]"
    by (simp_all add: two_notifiers_def session_def advertised_def)
  have "trace (wl_display_roundtrip 1 2 (roundtrip_events two_notifiers) initial_state) =
      [Wl_display_roundtrip 1, Wl_registry_bind 2 1 Ext_idle_notifier_v1_interface 1,
       Wl_registry_bind 2 2 Wl_seat_interface 2,
       Wl_registry_bind 2 3 Ext_idle_notifier_v1_interface 3]"
    by (simp add: two_notifiers_def run_defs)
  then show ?thesis
    using notifier_bound_per_advertisement [of 1 2 "roundtrip_events two_notifiers" initial_state]
      notifier_bound_per_advertisement [of 1 2 "roundtrip_events session" initial_state] a
    by (simp add: initial_state_def)
qed

subsection \<open>Discovery comes before the subscription\<close>

lemma loop_actions_no_subscription: "list_all loop_action u \<Longrightarrow> subscriptions u = []"
  unfolding subscriptions_def by (rule loop_actions_are_silent) simp_all

text \<open>
  Claim C8. In a run that subscribes, all of discovery lies before the request for the
  notification object: \<^verbatim>\<open>wl_display_roundtrip\<close> has been called, and the first
  advertised seat and every advertised idle notifier have been bound. One notification
  object is requested in the run, from the notifier bound last, with the timeout taken
  from the arguments and the seat that was bound.
\<close>

theorem subscription_after_discovery:
  assumes "subscribes e"
  shows "Wl_display_roundtrip 1 \<in> set (before_subscription (run_trace e)) \<and>
    map fst (binds Wl_seat_interface (before_subscription (run_trace e))) =
      take 1 (advertised ''wl_seat'' (roundtrip_events e)) \<and>
    map fst (binds Ext_idle_notifier_v1_interface (before_subscription (run_trace e))) =
      advertised ''ext_idle_notifier_v1'' (roundtrip_events e) \<and>
    subscriptions (run_trace e) =
      [(Some (snd (last (binds Ext_idle_notifier_v1_interface
                (before_subscription (run_trace e))))),
        parse_timeout (argv e),
        Some (snd (hd (binds Wl_seat_interface (before_subscription (run_trace e))))))]"
proof -
  let ?d = "discovered e"
  obtain t where t: "trace ?d =
      [Wl_display_connect (Some 1), Wl_display_get_registry 1 2, Wl_registry_add_listener 2,
       Wl_display_roundtrip 1] @ t" "list_all is_bind t"
    using discovered_trace by blast
  obtain u where u: "trace (fst (dispatch_loop 1 2 (dispatch_results e) (ready e))) =
      trace (ready e) @ u" "list_all loop_action u"
    using dispatch_loop_extends by blast
  have shape: "run_trace e = trace ?d @
      Get_idle_notification (notifier ?d) (parse_timeout (argv e)) (seat ?d) (next_proxy ?d) #
      Notification_add_listener (next_proxy ?d) # Printf ''READY\<newline>'' # Fflush # u @
      (if connection_fails (dispatch_results e) then
         [Notification_destroy (next_proxy ?d),
          Notifier_destroy (notifier (fst (dispatch_loop 1 2 (dispatch_results e) (ready e)))),
          Wl_display_disconnect 1]
       else [])"
    using u(1) by (simp add: run_subscribes(1) [OF assms] ready_simps)
  have none: "\<forall>a\<in>set (trace ?d). \<not> is_subscription a"
  proof -
    have "\<forall>a\<in>set t. \<not> is_subscription a"
      using t(2) by (induction t) (auto elim: is_bind.elims)
    then show ?thesis by (simp add: t(1))
  qed
  have pre: "before_subscription (run_trace e) = trace ?d"
    unfolding before_subscription_def shape using none
    by (subst takeWhile_append2) auto
  have "subscriptions t = []"
    unfolding subscriptions_def using t(2) by (rule binds_are_silent) simp
  then have subs: "subscriptions (run_trace e) =
      [(notifier ?d, parse_timeout (argv e), seat ?d)]"
    by (simp add: shape t(1) loop_actions_no_subscription [OF u(2)])
  have sb: "binds Wl_seat_interface (trace ?d) \<noteq> []"
    using assms discovered_seat_binds [of e]
    by (metis map_is_Nil_conv subscribes_def take_eq_Nil zero_neq_one)
  have nb: "binds Ext_idle_notifier_v1_interface (trace ?d) \<noteq> []"
    using assms discovered_notifier_binds [of e] by (metis map_is_Nil_conv subscribes_def)
  have st: "seat ?d = Some (snd (hd (binds Wl_seat_interface (trace ?d))))"
    using discovered_linked [of e] sb by (simp add: linked_def split: list.splits)
  have nt: "notifier ?d = Some (snd (last (binds Ext_idle_notifier_v1_interface (trace ?d))))"
    using discovered_linked [of e] nb
    by (simp add: linked_def last_rev [symmetric] split: list.splits)
  have rt: "Wl_display_roundtrip 1 \<in> set (trace ?d)"
    by (simp add: t(1))
  show ?thesis
    unfolding pre subs
    using st nt rt by (simp add: discovered_seat_binds discovered_notifier_binds)
qed

theorem subscription_after_discovery_witness:
  "subscribes session \<and>
   before_subscription (run_trace session) =
     [Wl_display_connect (Some 1), Wl_display_get_registry 1 2, Wl_registry_add_listener 2,
      Wl_display_roundtrip 1,
      Wl_registry_bind 2 2 Wl_seat_interface 3,
      Wl_registry_bind 2 3 Ext_idle_notifier_v1_interface 4] \<and>
   subscriptions (run_trace session) = [(Some 4, 5000, Some 3)]"
  using subscription_after_discovery [OF session_subscribes] session_subscribes
  by (simp add: session_run before_subscription_def)


subsection \<open>Teardown\<close>

lemma bound_objects_created: "snd ` set (binds i tr) \<subseteq> set (created tr)"
proof (induction tr)
  case Nil
  then show ?case by simp
next
  case (Cons a tr)
  then show ?case by (cases a) auto
qed

text \<open>
  Claim C9 as it is written fails on the example session: the seat object is created and
  never destroyed.
\<close>

theorem teardown_counterexample:
  "connect_result session \<and> exit_status session = Some 0 \<and>
   binds Wl_seat_interface (run_trace session) = [(2, 3)] \<and>
   created (run_trace session) = [3, 4, 5] \<and>
   destroyed (run_trace session) = [5, 4]"
  by (simp add: session_run) (simp add: session_def)

text \<open>
  Claim C9, amended. In a run that connected and exits, the display is disconnected
  exactly once, and that is the last call, so every destruction comes before it. The
  objects destroyed are distinct, each was created in the run, and the notification
  object that was requested is among them.
\<close>

theorem teardown_once:
  assumes "connect_result e" and "exit_status e \<noteq> None"
  shows "disconnected (run_trace e) = [1] \<and>
    last (run_trace e) = Wl_display_disconnect 1 \<and>
    distinct (destroyed (run_trace e)) \<and>
    set (destroyed (run_trace e)) \<subseteq> set (created (run_trace e)) \<and>
    set (requested (run_trace e)) \<subseteq> set (destroyed (run_trace e))"
proof -
  let ?d = "discovered e"
  obtain t where t: "trace ?d =
      [Wl_display_connect (Some 1), Wl_display_get_registry 1 2, Wl_registry_add_listener 2,
       Wl_display_roundtrip 1] @ t" "list_all is_bind t"
    using discovered_trace by blast
  have "disconnected t = []" "destroyed t = []" "requested t = []"
    unfolding disconnected_def destroyed_def requested_def
    using t(2) by (rule binds_are_silent, simp)+
  then have d: "disconnected (trace ?d) = []" "destroyed (trace ?d) = []"
    "requested (trace ?d) = []"
    by (simp_all add: t(1))
  consider "advertised ''wl_seat'' (roundtrip_events e) = []"
    | "advertised ''wl_seat'' (roundtrip_events e) \<noteq> []"
      "advertised ''ext_idle_notifier_v1'' (roundtrip_events e) = []"
    | "subscribes e"
    using assms(1) by (auto simp: subscribes_def)
  then show ?thesis
  proof cases
    case 1
    then show ?thesis
      using assms(1) by (simp add: run_no_seat d subscribes_def)
  next
    case 2
    then show ?thesis
      using assms(1) by (simp add: run_no_notifier d subscribes_def)
  next
    case 3
    let ?l = "fst (dispatch_loop 1 2 (dispatch_results e) (ready e))"
    have fails: "connection_fails (dispatch_results e)"
      using assms(2) by (simp add: run_subscribes(2) [OF 3] split: if_splits)
    obtain u where u: "trace ?l = trace (ready e) @ u" "list_all loop_action u"
      using dispatch_loop_extends by blast
    have "disconnected u = []"
      unfolding disconnected_def using u(2) by (rule loop_actions_are_silent) simp_all
    moreover have "destroyed u = []"
      unfolding destroyed_def using u(2) by (rule loop_actions_are_silent) simp_all
    moreover have "requested u = []"
      unfolding requested_def using u(2) by (rule loop_actions_are_silent) simp_all
    ultimately have l: "disconnected (trace ?l) = []" "destroyed (trace ?l) = []"
      "requested (trace ?l) = [next_proxy ?d]"
      using u(1) by (simp_all add: ready_simps d)
    have "linked ?l"
      using ready_linked by (rule dispatch_loop_linked)
    moreover have "notifier ?l \<noteq> None"
    proof (rule dispatch_loop_invariant)
      show "notifier (ready e) \<noteq> None"
        using 3 by (simp add: subscribes_iff ready_simps del: not_None_eq)
    qed (simp_all add: registry_global_notifier)
    ultimately obtain n where n: "notifier ?l = Some n"
      and "n \<in> snd ` set (binds Ext_idle_notifier_v1_interface (trace ?l))"
      by (cases "rev (binds Ext_idle_notifier_v1_interface (trace ?l))")
        (auto simp: linked_def)
    then have n_created: "n \<in> set (created (trace ?l))"
      using bound_objects_created by blast
    have q_created: "next_proxy ?d \<in> set (created (trace ?l))"
      using u(1) by (simp add: ready_simps)
    have fresh: "n \<noteq> next_proxy ?d"
      using dispatch_loop_notifier_fresh [of "dispatch_results e" e] n by simp
    have run: "run_trace e = trace ?l @
        [Notification_destroy (next_proxy ?d), Notifier_destroy (Some n),
         Wl_display_disconnect 1]"
      using fails n by (simp add: run_subscribes(1) [OF 3])
    show ?thesis
      unfolding run using l n_created q_created fresh 3 by simp
  qed
qed

theorem teardown_once_witness:
  "connect_result session \<and> exit_status session \<noteq> None \<and>
   disconnected (run_trace session) = [1] \<and>
   last (run_trace session) = Wl_display_disconnect 1 \<and>
   destroyed (run_trace session) = [5, 4] \<and> requested (run_trace session) = [5] \<and>
   connect_result seat_only \<and> exit_status seat_only \<noteq> None \<and>
   disconnected (run_trace seat_only) = [1] \<and>
   destroyed (run_trace seat_only) = []"
proof -
  have s: "connect_result session" "exit_status session \<noteq> None"
    by (simp_all add: session_run) (simp add: session_def)
  have o: "connect_result seat_only" "exit_status seat_only \<noteq> None"
    by (simp_all add: seat_only_run) (simp add: seat_only_def)
  show ?thesis
    using teardown_once [OF s] teardown_once [OF o] s o
    by (simp add: session_run seat_only_run)
qed

end
